theory Spec2Isabelle
  imports Main "HOL-Library.Char_ord" "HOL-Library.List_Lexorder" "HOL-Library.Sublist"
begin

section \<open>Python values used by \<open>scripts/prepare_tweet_contents.py\<close>\<close>

text \<open>
  Exceptions are values.  \<open>RequestException\<close> is the class of the \<open>requests\<close> library
  that \<open>get_posts_from_x_api\<close> catches (connection failures, time-outs, the
  \<open>HTTPError\<close> of \<open>raise_for_status\<close>, an undecodable body); the other constructors are
  the built-in exceptions the script can meet.
\<close>

datatype py_error = ValueError | TypeError | AttributeError | OSError | RequestException

subsection \<open>\<open>range(0, stop, step)\<close> and \<open>lst[i:j]\<close>\<close>

text \<open>
  \<open>range(0, stop, step)\<close> raises \<open>ValueError\<close> for \<open>step = 0\<close>; for a positive step it
  counts \<open>0, step, 2 * step, ...\<close> below \<open>stop\<close>; for a negative step and \<open>stop \<ge> 0\<close> it
  is empty.
\<close>

definition py_range0 :: "int \<Rightarrow> int \<Rightarrow> py_error + int list" where
  "py_range0 stop step =
     (if step = 0 then Inl ValueError
      else if 0 < step then Inr (map (\<lambda>k. int k * step) [0..<nat ((stop + step - 1) div step)])
      else Inr [])"

text \<open>
  \<open>lst[i:j]\<close> for \<open>0 \<le> i\<close>: both bounds are clamped to the length, nothing raises.  A
  negative \<open>j\<close> counts from the end (it occurs in \<open>chunk_list\<close> only under a negative
  chunk size, where the range is empty and no slice is taken).
\<close>

definition py_slice :: "'a list \<Rightarrow> int \<Rightarrow> int \<Rightarrow> 'a list" where
  "py_slice lst i j =
     (let n = int (length lst); j' = (if j < 0 then max 0 (n + j) else j)
      in drop (nat i) (take (nat j') lst))"

section \<open>Chunker\<close>

text \<open>
  \<^verbatim>\<open>return [lst[i : i + chunk_size] for i in range(0, len(lst), chunk_size)]\<close>
\<close>

definition chunk_list :: "'a list \<Rightarrow> int \<Rightarrow> py_error + 'a list list" where
  "chunk_list lst chunk_size =
     (case py_range0 (int (length lst)) chunk_size of
        Inl e \<Rightarrow> Inl e
      | Inr starts \<Rightarrow> Inr (map (\<lambda>i. py_slice lst i (i + chunk_size)) starts))"

section \<open>Strings and regular expressions\<close>

text \<open>
  A Python \<open>str\<close> is modelled as a \<open>string\<close>, each \<open>char\<close> one code point below
  U+0100.  On that range the class \<open>\d\<close> of \<open>re\<close> (Unicode decimal digits) is \<open>0-9\<close>,
  and \<open>\w\<close> (alphanumeric or underscore in the sense of \<open>str.isalnum\<close>) is the ASCII
  letters, digits and underscore together with the Latin-1 letters and numeric signs.
\<close>

definition is_digit :: "char \<Rightarrow> bool" where
  "is_digit c = (CHR ''0'' \<le> c \<and> c \<le> CHR ''9'')"

definition is_word :: "char \<Rightarrow> bool" where
  "is_word c =
     (is_digit c \<or> (CHR ''a'' \<le> c \<and> c \<le> CHR ''z'') \<or> (CHR ''A'' \<le> c \<and> c \<le> CHR ''Z'')
      \<or> c = CHR ''_''
      \<or> c \<in> {CHR 0xAA, CHR 0xB2, CHR 0xB3, CHR 0xB5, CHR 0xB9, CHR 0xBA, CHR 0xBC, CHR 0xBD, CHR 0xBE}
      \<or> (CHR 0xC0 \<le> c \<and> c \<le> CHR 0xD6) \<or> (CHR 0xD8 \<le> c \<and> c \<le> CHR 0xF6)
      \<or> CHR 0xF8 \<le> c)"

text \<open>\<open>needle in s\<close> on strings: \<open>needle\<close> occurs somewhere in \<open>s\<close>.\<close>

fun py_in :: "string \<Rightarrow> string \<Rightarrow> bool" where
  "py_in needle [] = (needle = [])"
| "py_in needle (c # cs) = (prefix needle (c # cs) \<or> py_in needle cs)"

text \<open>
  The fragment of regular expressions the two patterns are written in: a literal, a
  character class repeated one or more times (\<open>\w+\<close>, \<open>\d+\<close>), concatenation,
  alternation, and an optional part.
\<close>

datatype rx = Lit string | Plus "char \<Rightarrow> bool" | Seq rx rx | Alt rx rx | Opt rx

text \<open>
  \<open>rests r s\<close> lists what is left of \<open>s\<close> after each way of matching \<open>r\<close> at the start of
  \<open>s\<close>, in the order in which the backtracking matcher of \<open>re\<close> tries them: a greedy
  repetition takes the longest run first and gives characters back one at a time, an
  alternation tries its left branch first, an optional part is first taken and then
  left out.
\<close>

fun rests :: "rx \<Rightarrow> string \<Rightarrow> string list" where
  "rests (Lit l) s = (if prefix l s then [drop (length l) s] else [])"
| "rests (Plus p) s = map (\<lambda>k. drop k s) (rev [1..<Suc (length (takeWhile p s))])"
| "rests (Seq a b) s = concat (map (rests b) (rests a s))"
| "rests (Alt a b) s = rests a s @ rests b s"
| "rests (Opt a) s = rests a s @ [s]"

text \<open>
  A pattern of the shape \<open>pre(\<C>+)\<close>: a prefix expression followed by the only
  capturing group, a class repeated greedily.  \<open>match_here\<close> is \<open>re.match\<close> (anchored at
  the start of \<open>s\<close>) followed by \<open>.group(1)\<close>: the first way of matching the prefix after
  which at least one character of the class follows, and the longest run of the class
  there.
\<close>

type_synonym pattern = "rx \<times> (char \<Rightarrow> bool)"

definition match_here :: "pattern \<Rightarrow> string \<Rightarrow> string option" where
  "match_here pat s =
     (case filter (\<lambda>r. takeWhile (snd pat) r \<noteq> []) (rests (fst pat) s) of
        [] \<Rightarrow> None
      | r # _ \<Rightarrow> Some (takeWhile (snd pat) r))"

text \<open>\<open>re.search\<close>: the match at the leftmost start position that has one.\<close>

fun re_search :: "pattern \<Rightarrow> string \<Rightarrow> string option" where
  "re_search pat [] = match_here pat []"
| "re_search pat (c # cs) =
     (case match_here pat (c # cs) of Some g \<Rightarrow> Some g | None \<Rightarrow> re_search pat cs)"

section \<open>Identifier Extractor\<close>

text \<open>
  \<^verbatim>\<open>r"https?://(?:twitter\.com|x\.com)/\w+/status/(\d+)"\<close> and
  \<^verbatim>\<open>r"https?://(?:twitter\.com|x\.com)/i/status/(\d+)"\<close>
\<close>

definition host_rx :: rx where
  "host_rx = Seq (Lit ''http'') (Seq (Opt (Lit ''s'')) (Seq (Lit ''://'')
               (Alt (Lit ''twitter.com'') (Lit ''x.com''))))"

definition patterns :: "pattern list" where
  "patterns =
     [(Seq host_rx (Seq (Lit ''/'') (Seq (Plus is_word) (Lit ''/status/''))), is_digit),
      (Seq host_rx (Lit ''/i/status/''), is_digit)]"

text \<open>
  \<^verbatim>\<open>
  for pattern in patterns:
      match = re.search(pattern, url)
      if match:
          return match.group(1)
  return None
  \<close>
\<close>

fun first_match :: "pattern list \<Rightarrow> string \<Rightarrow> string option" where
  "first_match [] url = None"
| "first_match (pat # pats) url =
     (case re_search pat url of Some g \<Rightarrow> Some g | None \<Rightarrow> first_match pats url)"

definition extract_tweet_id_from_url :: "string \<Rightarrow> string option" where
  "extract_tweet_id_from_url url = first_match patterns url"

text \<open>
  Vocabulary for the properties of the Extractor.  \<open>lang r\<close> is the set of strings the
  expression \<open>r\<close> matches as a whole.  \<open>status_url\<close> builds a URL of the shape the
  patterns are written for, and \<open>supported\<close> says that its parts are admissible: scheme
  \<open>http\<close> or \<open>https\<close>, one of the two host names, a user segment of one or more word
  characters (the segment \<open>i\<close> of the second path shape is one), and an identifier of
  one or more digits.
\<close>

fun lang :: "rx \<Rightarrow> string set" where
  "lang (Lit l) = {l}"
| "lang (Plus p) = {m. m \<noteq> [] \<and> (\<forall>c \<in> set m. p c)}"
| "lang (Seq a b) = {m. \<exists>x \<in> lang a. \<exists>y \<in> lang b. m = x @ y}"
| "lang (Alt a b) = lang a \<union> lang b"
| "lang (Opt a) = insert [] (lang a)"




section \<open>Media extension\<close>

text \<open>
  \<^verbatim>\<open>
  if media_type == "photo":
      if ".jpg" in url or ".jpeg" in url: return ".jpg"
      elif ".png" in url: return ".png"
      elif ".webp" in url: return ".webp"
      else: return ".jpg"
  elif media_type == "video": return ".mp4"
  elif media_type == "animated_gif": return ".gif"
  else: return ".bin"
  \<close>
\<close>

definition get_media_extension :: "string \<Rightarrow> string \<Rightarrow> string" where
  "get_media_extension media_type url =
     (if media_type = ''photo'' then
        (if py_in ''.jpg'' url \<or> py_in ''.jpeg'' url then ''.jpg''
         else if py_in ''.png'' url then ''.png''
         else if py_in ''.webp'' url then ''.webp''
         else ''.jpg'')
      else if media_type = ''video'' then ''.mp4''
      else if media_type = ''animated_gif'' then ''.gif''
      else ''.bin'')"

section \<open>Media Resolver and per-item persistence\<close>

text \<open>
  The dictionaries of the API response, with the keys the script reads.  A key that may
  be absent is an \<open>option\<close> field (\<open>None\<close>: the key is not in the dictionary); the
  values are taken to be of the JSON type the API documents for them.
\<close>

record variant =
  var_bit_rate :: "int option"
  var_url :: "string option"

record media =
  md_media_key :: "string option"
  md_type :: "string option"
  md_url :: "string option"
  md_variants :: "variant list option"

text \<open>
  \<open>tw_attachments\<close> is \<open>None\<close> when the tweet has no \<open>attachments\<close> key; inside it,
  \<open>None\<close> stands for a missing \<open>media_keys\<close> key.
\<close>

record tweet =
  tw_id :: "string option"
  tw_text :: "string option"
  tw_created_at :: "string option"
  tw_attachments :: "string list option option"

record tweet_includes =
  inc_media :: "media list option"

text \<open>\<open>d.get(key, default)\<close> on an optional field.\<close>

definition get_or :: "'a option \<Rightarrow> 'a \<Rightarrow> 'a" where
  "get_or field dflt = (case field of None \<Rightarrow> dflt | Some v \<Rightarrow> v)"

text \<open>
  One batch response: the top-level \<open>data\<close> and \<open>includes\<close> keys, each possibly
  absent, and the names of the other top-level keys (\<open>errors\<close>, \<open>meta\<close>), whose
  values the script never reads.
\<close>

record api_response =
  rs_data :: "tweet list option"
  rs_includes :: "tweet_includes option"
  rs_other_keys :: "string list"

text \<open>What the persistence layer does to the outside world, in order.\<close>

datatype effect =
    Mkdir string
  | Write_json string tweet
  | Write_responses string "api_response list"
  | Write_ids string "string list"
  | Download string string

text \<open>\<open>str(n)\<close> for the counters inside the f-strings.\<close>

definition digit_char :: "nat \<Rightarrow> char" where
  "digit_char d = char_of (of_char (CHR ''0'') + d)"

fun str_nat :: "nat \<Rightarrow> string" where
  "str_nat n = (if n < 10 then [digit_char n] else str_nat (n div 10) @ [digit_char (n mod 10)])"

text \<open>
  \<^verbatim>\<open>
  media_url = ""
  max_bitrate = 0
  for variant in variants:
      bitrate = variant.get("bit_rate", 0)
      if bitrate > max_bitrate:
          max_bitrate = bitrate
          media_url = variant.get("url", "")
  \<close>
\<close>

fun select_video_variant :: "variant list \<Rightarrow> int \<Rightarrow> string \<Rightarrow> string" where
  "select_video_variant [] max_bitrate media_url = media_url"
| "select_video_variant (v # vs) max_bitrate media_url =
     (let bitrate = get_or (var_bit_rate v) 0
      in if bitrate > max_bitrate
         then select_video_variant vs bitrate (get_or (var_url v) '''')
         else select_video_variant vs max_bitrate media_url)"

text \<open>The local variables of \<open>save_individual_tweet\<close> that the loop updates.\<close>

record resolver_state =
  photo_count :: nat
  video_count :: nat
  gif_count :: nat
  media_count :: nat
  effects :: "effect list"

text \<open>
  \<open>download_media_file\<close> catches every exception and returns a truth value; whether a
  download succeeds is decided by the network, here the parameter \<open>dl\<close> (URL and target
  path to success).
  \<^verbatim>\<open>
  if media_url:
      extension = get_media_extension(media_type, media_url)
      filepath = output_path / f"{filename}{extension}"
      if download_media_file(media_url, filepath):
          media_count += 1
  \<close>
\<close>

definition download_step ::
  "(string \<Rightarrow> string \<Rightarrow> bool) \<Rightarrow> string \<Rightarrow> string \<Rightarrow> string \<Rightarrow> string
     \<Rightarrow> resolver_state \<Rightarrow> resolver_state" where
  "download_step dl output_path media_type filename media_url st =
     (if media_url \<noteq> '''' then
        (let extension = get_media_extension media_type media_url;
             filepath = output_path @ ''/'' @ filename @ extension;
             st' = st\<lparr>effects := effects st @ [Download media_url filepath]\<rparr>
         in if dl media_url filepath then st'\<lparr>media_count := media_count st' + 1\<rparr> else st')
      else st)"

text \<open>The body of \<open>for media_key in media_keys\<close>.\<close>

definition process_media_key ::
  "(string \<Rightarrow> string \<Rightarrow> bool) \<Rightarrow> media list \<Rightarrow> string \<Rightarrow> resolver_state \<Rightarrow> string
     \<Rightarrow> resolver_state" where
  "process_media_key dl media_data output_path st media_key =
     (case find (\<lambda>m. md_media_key m = Some media_key) media_data of
        None \<Rightarrow> st
      | Some media_info \<Rightarrow>
          (let media_type = get_or (md_type media_info) ''''
           in if media_type = ''photo'' then
                (let st1 = st\<lparr>photo_count := photo_count st + 1\<rparr>;
                     filename = ''photo_'' @ str_nat (photo_count st1);
                     media_url = get_or (md_url media_info) ''''
                 in download_step dl output_path media_type filename media_url st1)
              else if media_type = ''video'' then
                (let st1 = st\<lparr>video_count := video_count st + 1\<rparr>;
                     filename = ''video_'' @ str_nat (video_count st1);
                     variants = get_or (md_variants media_info) [];
                     media_url = select_video_variant variants 0 ''''
                 in download_step dl output_path media_type filename media_url st1)
              else if media_type = ''animated_gif'' then
                (let st1 = st\<lparr>gif_count := gif_count st + 1\<rparr>;
                     filename = ''gif_'' @ str_nat (gif_count st1);
                     variants = get_or (md_variants media_info) [];
                     media_url = (case variants of [] \<Rightarrow> '''' | v # _ \<Rightarrow> get_or (var_url v) '''')
                 in download_step dl output_path media_type filename media_url st1)
              else st))"

text \<open>
  \<open>save_individual_tweet\<close> returns the number of downloaded files; the model returns
  the effects beside it.  \<open>Path(output_dir) / "individual_tweets" / tweet_id\<close> is written
  with \<open>/\<close> as the separator.
\<close>

definition save_individual_tweet ::
  "(string \<Rightarrow> string \<Rightarrow> bool) \<Rightarrow> tweet \<Rightarrow> tweet_includes \<Rightarrow> string \<Rightarrow> nat \<times> effect list" where
  "save_individual_tweet dl tweet_data includes_data output_dir =
     (case tw_id tweet_data of
        None \<Rightarrow> (0, [])
      | Some tweet_id \<Rightarrow>
          if tweet_id = '''' then (0, [])
          else
            (let output_path = output_dir @ ''/individual_tweets/'' @ tweet_id;
                 tweet_file = output_path @ ''/tweet.json'';
                 st0 = \<lparr>photo_count = 0, video_count = 0, gif_count = 0, media_count = 0,
                        effects = [Mkdir output_path, Write_json tweet_file tweet_data]\<rparr>;
                 media_data = get_or (inc_media includes_data) [];
                 st = (case tw_attachments tweet_data of
                         None \<Rightarrow> st0
                       | Some attachments \<Rightarrow>
                           if media_data \<noteq> []
                           then foldl (process_media_key dl media_data output_path) st0
                                  (get_or attachments [])
                           else st0)
             in (media_count st, effects st)))"

section \<open>Aggregate persistence\<close>



section \<open>Batch Fetcher\<close>

text \<open>
  The outcome of the HTTP exchange of one call (\<open>requests.get\<close>, \<open>raise_for_status\<close>,
  \<open>response.json()\<close>): an exception, or the decoded response.  A transport failure and
  an error status both arrive as \<open>Raises RequestException\<close>.
\<close>

datatype api_reply = Raises py_error | Returns api_response

text \<open>
  \<^verbatim>\<open>
  try:
      response = requests.get(url, headers=headers, params=params)
      response.raise_for_status()
      return response.json()
  except requests.exceptions.RequestException as e:
      ...
      return {}
  \<close>
  The network is the parameter \<open>net\<close>, from the identifiers and the token of the request
  to its outcome.  Any other exception leaves the function.
\<close>

definition empty_response :: api_response where
  "empty_response = \<lparr>rs_data = None, rs_includes = None, rs_other_keys = []\<rparr>"

definition get_posts_from_x_api ::
  "(string list \<Rightarrow> string \<Rightarrow> api_reply) \<Rightarrow> string list \<Rightarrow> string \<Rightarrow> py_error + api_response" where
  "get_posts_from_x_api net tweet_ids bearer_token =
     (case net tweet_ids bearer_token of
        Returns response \<Rightarrow> Inr response
      | Raises e \<Rightarrow> if e = RequestException then Inr empty_response else Inl e)"

text \<open>Truth value of a response dictionary: it has at least one key.\<close>

definition py_truthy :: "api_response \<Rightarrow> bool" where
  "py_truthy r = (rs_data r \<noteq> None \<or> rs_includes r \<noteq> None \<or> rs_other_keys r \<noteq> [])"

text \<open>What a run does that can be observed in time: the calls and the pauses.\<close>

datatype event = Api_call nat "string list" | Sleep nat

record fetch_state =
  all_tweets_data :: "api_response list"
  failed_chunks :: "(nat \<times> string list) list"
  events :: "event list"

text \<open>
  The body of \<open>for i, chunk in enumerate(chunks, 1)\<close>; \<open>n_chunks\<close> is \<open>len(chunks)\<close> and
  \<open>net i\<close> the network at the time of the \<open>i\<close>-th call.
  \<^verbatim>\<open>
  try:
      tweets_data = get_posts_from_x_api(chunk, bearer_token, output_dir)
      if tweets_data and "data" in tweets_data:
          all_tweets_data.append(tweets_data)
      else:
          failed_chunks.append((i, chunk))
      if i < len(chunks):
          if is_free_plan:
              time.sleep(900)
          else:
              if len(chunks) > 15:
                  time.sleep(60)
  except Exception as e:
      failed_chunks.append((i, chunk))
  \<close>
\<close>

definition fetch_batch ::
  "(nat \<Rightarrow> string list \<Rightarrow> string \<Rightarrow> api_reply) \<Rightarrow> string \<Rightarrow> bool \<Rightarrow> nat
     \<Rightarrow> fetch_state \<Rightarrow> nat \<times> string list \<Rightarrow> fetch_state" where
  "fetch_batch net bearer_token is_free_plan n_chunks st ic =
     (let i = fst ic; chunk = snd ic;
          st1 = st\<lparr>events := events st @ [Api_call i chunk]\<rparr>
      in case get_posts_from_x_api (net i) chunk bearer_token of
           Inl e \<Rightarrow> st1\<lparr>failed_chunks := failed_chunks st1 @ [(i, chunk)]\<rparr>
         | Inr tweets_data \<Rightarrow>
             (let st2 = (if py_truthy tweets_data \<and> rs_data tweets_data \<noteq> None
                         then st1\<lparr>all_tweets_data := all_tweets_data st1 @ [tweets_data]\<rparr>
                         else st1\<lparr>failed_chunks := failed_chunks st1 @ [(i, chunk)]\<rparr>)
              in if i < n_chunks then
                   (if is_free_plan then st2\<lparr>events := events st2 @ [Sleep 900]\<rparr>
                    else if n_chunks > 15 then st2\<lparr>events := events st2 @ [Sleep 60]\<rparr>
                    else st2)
                 else st2))"

text \<open>\<open>enumerate(chunks, 1)\<close>\<close>

definition enumerate1 :: "'a list \<Rightarrow> (nat \<times> 'a) list" where
  "enumerate1 xs = zip [1..<Suc (length xs)] xs"

definition fetch_loop ::
  "(nat \<Rightarrow> string list \<Rightarrow> string \<Rightarrow> api_reply) \<Rightarrow> string \<Rightarrow> bool \<Rightarrow> string list list
     \<Rightarrow> fetch_state" where
  "fetch_loop net bearer_token is_free_plan chunks =
     foldl (fetch_batch net bearer_token is_free_plan (length chunks))
       \<lparr>all_tweets_data = [], failed_chunks = [], events = []\<rparr>
       (enumerate1 chunks)"


text \<open>
  Vocabulary for the properties of the loop: the response a batch contributes to the
  results (the call returned a response that has the \<open>data\<close> key), the calls among
  the events, and the pause that follows batch \<open>i\<close> of \<open>n_chunks\<close>.
\<close>

definition batch_result ::
  "(nat \<Rightarrow> string list \<Rightarrow> string \<Rightarrow> api_reply) \<Rightarrow> string \<Rightarrow> nat \<times> string list
     \<Rightarrow> api_response option" where
  "batch_result net bearer_token ic =
     (case net (fst ic) (snd ic) bearer_token of
        Returns r \<Rightarrow> if rs_data r \<noteq> None then Some r else None
      | Raises e \<Rightarrow> None)"

fun is_api_call :: "event \<Rightarrow> bool" where
  "is_api_call (Api_call i chunk) = True"
| "is_api_call (Sleep t) = False"

definition pause_after :: "bool \<Rightarrow> nat \<Rightarrow> nat \<Rightarrow> event list" where
  "pause_after is_free_plan n_chunks i =
     (if i < n_chunks then
        (if is_free_plan then [Sleep 900] else if n_chunks > 15 then [Sleep 60] else [])
      else [])"

section \<open>Deduplicating Collector\<close>

text \<open>
  \<open>csv.DictReader\<close> over the rows that \<open>csv.reader\<close> yields: the first row is the
  header; every later row that is not empty becomes a dictionary from the field names
  to its cells, a later duplicate of a field name overriding an earlier one, and the
  field names beyond the end of a short row are mapped to \<open>None\<close> (the inner \<open>option\<close>).
  The cells beyond the header of a long row are stored under the key \<open>None\<close>, which no
  column name equals; the model leaves that entry out.
\<close>

type_synonym csv_row = "string \<rightharpoonup> string option"

definition dict_reader_row :: "string list \<Rightarrow> string list \<Rightarrow> csv_row" where
  "dict_reader_row fieldnames row =
     map_of (rev (zip fieldnames (map Some row)
                  @ map (\<lambda>key. (key, None)) (drop (length row) fieldnames)))"

definition dict_reader :: "string list list \<Rightarrow> csv_row list" where
  "dict_reader rows =
     (case rows of
        [] \<Rightarrow> []
      | fieldnames # body \<Rightarrow> map (dict_reader_row fieldnames) (filter (\<lambda>row. row \<noteq> []) body))"

text \<open>
  The body of the loop, as the identifier a row contributes:
  \<^verbatim>\<open>
  url = row.get(target_column, "")
  if url:
      tweet_id = extract_tweet_id_from_url(url)
      if tweet_id:
          tweet_ids.add(tweet_id)
  \<close>
\<close>

definition row_tweet_id :: "string \<Rightarrow> csv_row \<Rightarrow> string option" where
  "row_tweet_id target_column row =
     (case get_or (row target_column) (Some '''') of
        None \<Rightarrow> None
      | Some url \<Rightarrow>
          if url \<noteq> '''' then
            (case extract_tweet_id_from_url url of
               None \<Rightarrow> None
             | Some tweet_id \<Rightarrow> if tweet_id \<noteq> '''' then Some tweet_id else None)
          else None)"

text \<open>
  \<open>extract_tweet_ids_from_csv\<close>.  Opening and decoding the file is the parameter
  \<open>read_csv\<close>, from the path to the rows or to the exception raised; the function has
  no handler, so that exception leaves it.
\<close>

definition extract_tweet_ids_from_csv ::
  "(string \<Rightarrow> py_error + string list list) \<Rightarrow> string \<Rightarrow> string \<Rightarrow> py_error + string set" where
  "extract_tweet_ids_from_csv read_csv csv_file target_column =
     (case read_csv csv_file of
        Inl e \<Rightarrow> Inl e
      | Inr rows \<Rightarrow>
          Inr (foldl (\<lambda>tweet_ids row.
                        case row_tweet_id target_column row of
                          None \<Rightarrow> tweet_ids
                        | Some tweet_id \<Rightarrow> insert tweet_id tweet_ids)
                 {} (dict_reader rows)))"

section \<open>Identifier list persistence and the command surface\<close>







section \<open>Properties of the chunker\<close>

lemma chunk_list_pos:
  assumes "0 < n"
  shows "chunk_list lst n =
    Inr (map (\<lambda>k. take (nat n) (drop (k * nat n) lst)) [0..<nat ((int (length lst) + n - 1) div n)])"
proof -
  have "py_slice lst (int k * n) (int k * n + n) = take (nat n) (drop (k * nat n) lst)" for k
  proof -
    have "0 \<le> int k * n" using assms by simp
    then have a: "\<not> int k * n + n < 0" using assms by linarith
    have b: "nat (int k * n) = k * nat n" using assms by (simp add: nat_mult_distrib)
    have c: "nat (int k * n + n) = k * nat n + nat n"
      using assms by (simp add: nat_add_distrib nat_mult_distrib)
    show ?thesis
      unfolding py_slice_def Let_def using a by (simp add: b c drop_take)
  qed
  then show ?thesis
    using assms by (simp add: chunk_list_def py_range0_def comp_def)
qed

lemma concat_chunks_take:
  "concat (map (\<lambda>k. take n (drop (k * n) xs)) [0..<m]) = take (m * n) xs"
proof (induction m)
  case 0
  show ?case by simp
next
  case (Suc m)
  have "take (m * n) xs @ take n (drop (m * n) xs) = take (m * n + n) xs"
    by (simp add: take_add)
  with Suc show ?case by (simp add: add.commute)
qed

lemma ceil_div_cover:
  assumes "0 < n"
  shows "length lst \<le> nat ((int (length lst) + n - 1) div n) * nat n"
proof -
  define L where "L = int (length lst)"
  define q where "q = (L + n - 1) div n"
  have "L + n - 1 = n * q + (L + n - 1) mod n" by (simp add: q_def)
  moreover have "(L + n - 1) mod n < n" using assms by simp
  ultimately have "L \<le> n * q" by linarith
  moreover have "0 \<le> q" using assms by (simp add: q_def L_def pos_imp_zdiv_nonneg_iff)
  ultimately have "int (length lst) \<le> int (nat q * nat n)"
    using assms by (simp add: L_def mult.commute)
  then show ?thesis unfolding q_def L_def by linarith
qed

lemma ceil_div_start:
  assumes "0 < n" "k < nat ((int (length lst) + n - 1) div n)"
  shows "k * nat n < length lst"
proof -
  define L where "L = int (length lst)"
  define q where "q = (L + n - 1) div n"
  have "int k < q" using assms(2) by (simp add: q_def L_def)
  then have "int k + 1 \<le> q" by simp
  then have "n * (int k + 1) \<le> n * q" using assms(1) by simp
  moreover have "L + n - 1 = n * q + (L + n - 1) mod n" by (simp add: q_def)
  moreover have "0 \<le> (L + n - 1) mod n" using assms(1) by simp
  ultimately have "n * (int k + 1) \<le> L + n - 1" by linarith
  then have "n * int k < L" by (simp add: algebra_simps)
  then have "int (k * nat n) < int (length lst)"
    using assms(1) by (simp add: L_def mult.commute)
  then show ?thesis by linarith
qed

text \<open>
  Claim C4.  For every list and every chunk size greater than zero, \<open>chunk_list\<close>
  returns (it does not raise) a list of chunks, each of length at most the chunk size and
  none of them empty, whose concatenation in order is the input list; in particular a
  list of 250 elements cut with chunk size 100 gives chunks of lengths 100, 100 and 50.
  (The result is a function of the list and the size: the same input gives the same
  chunks.  For the empty list there is no chunk at all.)
\<close>

theorem chunk_list_partition:
  assumes "0 < n"
  shows "\<exists>chunks. chunk_list lst n = Inr chunks
           \<and> (\<forall>c \<in> set chunks. length c \<le> nat n \<and> c \<noteq> [])
           \<and> concat chunks = lst
           \<and> (length lst = 250 \<and> n = 100 \<longrightarrow> map length chunks = [100, 100, 50])"
proof -
  let ?m = "nat ((int (length lst) + n - 1) div n)"
  let ?chunks = "map (\<lambda>k. take (nat n) (drop (k * nat n) lst)) [0..<?m]"
  have eq: "chunk_list lst n = Inr ?chunks" by (rule chunk_list_pos [OF assms])
  have bound: "\<forall>c \<in> set ?chunks. length c \<le> nat n \<and> c \<noteq> []"
  proof
    fix c assume "c \<in> set ?chunks"
    then obtain k where k: "k < ?m" and c: "c = take (nat n) (drop (k * nat n) lst)" by auto
    have "k * nat n < length lst" by (rule ceil_div_start [OF assms k])
    with assms show "length c \<le> nat n \<and> c \<noteq> []" by (simp add: c)
  qed
  have cat: "concat ?chunks = lst"
    using ceil_div_cover [OF assms, of lst] by (simp add: concat_chunks_take)
  have ex: "length lst = 250 \<and> n = 100 \<longrightarrow> map length ?chunks = [100, 100, 50]"
  proof
    assume h: "length lst = 250 \<and> n = 100"
    then have m: "?m = 3" by simp
    have u: "[0..<3] = [0, 1, 2::nat]" by (simp add: upt_rec)
    have "map length ?chunks = map (\<lambda>k. min (length lst - k * nat n) (nat n)) [0..<?m]"
      by simp
    also have "\<dots> = map (\<lambda>k. min (250 - k * 100) 100) [0, 1, 2::nat]"
      using h unfolding m u by simp
    also have "\<dots> = [100, 100, 50]" by simp
    finally show "map length ?chunks = [100, 100, 50]" .
  qed
  from eq bound cat ex show ?thesis by (intro exI [of _ ?chunks] conjI)
qed

theorem chunk_list_partition_witness:
  "(0::int) < 100 \<and> length (replicate 250 ''1'') = 250
   \<and> chunk_list (replicate 250 ''1'') 100
       = Inr [replicate 100 ''1'', replicate 100 ''1'', replicate 50 ''1'']"
proof -
  have pos: "(0::int) < 100" by simp
  obtain chunks where c: "chunk_list (replicate 250 ''1'') 100 = Inr chunks"
    and cat: "concat chunks = replicate 250 ''1''"
    and len: "map length chunks = [100, 100, 50]"
    using chunk_list_partition [OF pos, of "replicate 250 ''1''"] by auto
  obtain a b d where abd: "chunks = [a, b, d]" "length a = 100" "length b = 100" "length d = 50"
    using len by (auto simp: map_eq_Cons_conv)
  have "a @ b @ d = replicate 100 ''1'' @ replicate 100 ''1'' @ replicate 50 ''1''"
    using cat abd by (simp add: replicate_add [symmetric])
  then have "a = replicate 100 ''1'' \<and> b = replicate 100 ''1'' \<and> d = replicate 50 ''1''"
    using abd by simp
  then show ?thesis using c abd by simp
qed

section \<open>Properties of the media extension\<close>

lemma py_in_sublist: "py_in needle s \<longleftrightarrow> sublist needle s"
proof (induction s)
  case Nil
  show ?case by simp
next
  case (Cons c cs)
  show ?case by (simp add: Cons.IH sublist_Cons_right)
qed

text \<open>
  Claim C8 as stated fails: the extension is not read off the suffix of the URL.  A photo
  URL that ends in \<open>.png\<close> is saved as \<open>.jpg\<close> when \<open>.jpeg\<close> occurs earlier in it, and
  a URL that ends in none of the four suffixes (a query string follows) is saved as
  \<open>.png\<close>, not with the default.
\<close>

theorem photo_extension_by_suffix_counterexample:
  "suffix ''.png'' ''https://pbs.twimg.com/media/a.jpeg.png''
   \<and> get_media_extension ''photo'' ''https://pbs.twimg.com/media/a.jpeg.png'' = ''.jpg''
   \<and> \<not> suffix ''.jpg'' ''https://pbs.twimg.com/media/a.png?name=large''
   \<and> \<not> suffix ''.jpeg'' ''https://pbs.twimg.com/media/a.png?name=large''
   \<and> \<not> suffix ''.png'' ''https://pbs.twimg.com/media/a.png?name=large''
   \<and> \<not> suffix ''.webp'' ''https://pbs.twimg.com/media/a.png?name=large''
   \<and> get_media_extension ''photo'' ''https://pbs.twimg.com/media/a.png?name=large'' = ''.png''"
  by (simp add: get_media_extension_def suffix_to_prefix)

text \<open>
  Claim C8, amended.  For every photo media URL the extension is chosen by looking for
  the extensions anywhere in the URL, in this order: \<open>.jpg\<close> when \<open>.jpg\<close> or \<open>.jpeg\<close>
  occurs in it, otherwise \<open>.png\<close> when \<open>.png\<close> occurs, otherwise \<open>.webp\<close> when \<open>.webp\<close>
  occurs, and the default \<open>.jpg\<close> when none of them occurs; the result is always one
  of \<open>.jpg\<close>, \<open>.png\<close>, \<open>.webp\<close>.
\<close>

theorem photo_extension_by_occurrence:
  "get_media_extension ''photo'' url =
     (if sublist ''.jpg'' url \<or> sublist ''.jpeg'' url then ''.jpg''
      else if sublist ''.png'' url then ''.png''
      else if sublist ''.webp'' url then ''.webp''
      else ''.jpg'')
   \<and> get_media_extension ''photo'' url \<in> {''.jpg'', ''.png'', ''.webp''}"
  by (simp add: get_media_extension_def py_in_sublist)

section \<open>Properties of the Media Resolver\<close>

lemma select_video_variant_below:
  "\<forall>v \<in> set vs. get_or (var_bit_rate v) 0 \<le> mb \<Longrightarrow> select_video_variant vs mb url = url"
  by (induction vs arbitrary: mb url) (auto simp: Let_def)

lemma select_video_variant_no_url:
  "\<forall>v \<in> set vs. get_or (var_url v) '''' = '''' \<Longrightarrow> select_video_variant vs mb '''' = ''''"
  by (induction vs arbitrary: mb) (auto simp: Let_def)

lemma select_video_variant_max:
  "i < length vs \<Longrightarrow> mb < get_or (var_bit_rate (vs ! i)) 0
   \<Longrightarrow> \<forall>j < length vs. get_or (var_bit_rate (vs ! j)) 0 \<le> get_or (var_bit_rate (vs ! i)) 0
   \<Longrightarrow> \<forall>j < i. get_or (var_bit_rate (vs ! j)) 0 < get_or (var_bit_rate (vs ! i)) 0
   \<Longrightarrow> select_video_variant vs mb url = get_or (var_url (vs ! i)) ''''"
proof (induction vs arbitrary: i mb url)
  case Nil
  then show ?case by simp
next
  case (Cons v vs)
  show ?case
  proof (cases i)
    case 0
    have "\<forall>w \<in> set vs. get_or (var_bit_rate w) 0 \<le> get_or (var_bit_rate v) 0"
    proof
      fix w assume "w \<in> set vs"
      then obtain j where "j < length vs" "vs ! j = w" by (auto simp: in_set_conv_nth)
      with Cons.prems(3) [rule_format, of "Suc j"] 0
      show "get_or (var_bit_rate w) 0 \<le> get_or (var_bit_rate v) 0" by simp
    qed
    then show ?thesis
      using Cons.prems(2) 0 by (simp add: Let_def select_video_variant_below)
  next
    case (Suc k)
    have k: "k < length vs" using Cons.prems(1) Suc by simp
    have lt: "get_or (var_bit_rate v) 0 < get_or (var_bit_rate (vs ! k)) 0"
      using Cons.prems(4) [rule_format, of 0] Suc by simp
    have all: "\<forall>j < length vs. get_or (var_bit_rate (vs ! j)) 0 \<le> get_or (var_bit_rate (vs ! k)) 0"
    proof (intro allI impI)
      fix j assume "j < length vs"
      with Cons.prems(3) [rule_format, of "Suc j"] Suc
      show "get_or (var_bit_rate (vs ! j)) 0 \<le> get_or (var_bit_rate (vs ! k)) 0" by simp
    qed
    have before: "\<forall>j < k. get_or (var_bit_rate (vs ! j)) 0 < get_or (var_bit_rate (vs ! k)) 0"
    proof (intro allI impI)
      fix j assume "j < k"
      with Cons.prems(4) [rule_format, of "Suc j"] Suc
      show "get_or (var_bit_rate (vs ! j)) 0 < get_or (var_bit_rate (vs ! k)) 0" by simp
    qed
    have mb: "mb < get_or (var_bit_rate (vs ! k)) 0" using Cons.prems(2) Suc by simp
    show ?thesis
    proof (cases "get_or (var_bit_rate v) 0 > mb")
      case True
      then show ?thesis
        using Cons.IH [OF k lt all before] Suc by (simp add: Let_def)
    next
      case False
      then show ?thesis
        using Cons.IH [OF k mb all before] Suc by (simp add: Let_def)
    qed
  qed
qed

text \<open>
  Claim C7 as stated fails: \<open>max_bitrate\<close> starts at 0 and the comparison is strict, so a
  variant whose bitrate is 0 is never selected.  A video descriptor whose only variant
  has \<open>bit_rate\<close> 0 and a usable URL has that variant as its highest-bitrate one, yet
  nothing is selected and the attachment is skipped: the item is persisted with no
  download.
\<close>

theorem video_highest_bitrate_counterexample:
  "select_video_variant
     [\<lparr>var_bit_rate = Some 0, var_url = Some ''https://video.twimg.com/v/only.mp4''\<rparr>] 0 '''' = ''''
   \<and> save_individual_tweet (\<lambda>u p. True)
        \<lparr>tw_id = Some ''42'', tw_text = None, tw_created_at = None,
         tw_attachments = Some (Some [''7_1''])\<rparr>
        \<lparr>inc_media = Some [\<lparr>md_media_key = Some ''7_1'', md_type = Some ''video'', md_url = None,
            md_variants = Some [\<lparr>var_bit_rate = Some 0,
                                 var_url = Some ''https://video.twimg.com/v/only.mp4''\<rparr>]\<rparr>]\<rparr>
        ''data''
      = (0, [Mkdir ''data/individual_tweets/42'',
             Write_json ''data/individual_tweets/42/tweet.json''
               \<lparr>tw_id = Some ''42'', tw_text = None, tw_created_at = None,
                tw_attachments = Some (Some [''7_1''])\<rparr>])"
  by (simp add: save_individual_tweet_def process_media_key_def download_step_def get_or_def)

text \<open>
  Claim C7, amended.  For every video media descriptor, the Media Resolver selects the
  first variant whose bitrate (a missing \<open>bit_rate\<close> counts as 0) is positive, at least
  that of every variant and strictly higher than that of every earlier variant; so a
  descriptor with variant bitrates 500, 2000, 1200 selects the URL of the 2000 variant,
  and a video is saved with extension \<open>.mp4\<close>.  When no variant has a positive bitrate,
  or when no variant carries a usable URL, nothing is selected; and whenever nothing is
  selected the attachment is skipped (only the video counter moves) and the remaining
  media keys are processed.
\<close>

theorem select_video_variant_highest:
  "(i < length vs \<and> 0 < get_or (var_bit_rate (vs ! i)) 0
      \<and> (\<forall>j < length vs. get_or (var_bit_rate (vs ! j)) 0 \<le> get_or (var_bit_rate (vs ! i)) 0)
      \<and> (\<forall>j < i. get_or (var_bit_rate (vs ! j)) 0 < get_or (var_bit_rate (vs ! i)) 0)
     \<longrightarrow> select_video_variant vs 0 '''' = get_or (var_url (vs ! i)) '''')
   \<and> ((\<forall>v \<in> set vs. get_or (var_bit_rate v) 0 \<le> 0) \<longrightarrow> select_video_variant vs 0 '''' = '''')
   \<and> ((\<forall>v \<in> set vs. get_or (var_url v) '''' = '''') \<longrightarrow> select_video_variant vs 0 '''' = '''')
   \<and> select_video_variant
         [\<lparr>var_bit_rate = Some 500, var_url = Some u1\<rparr>,
          \<lparr>var_bit_rate = Some 2000, var_url = Some u2\<rparr>,
          \<lparr>var_bit_rate = Some 1200, var_url = Some u3\<rparr>] 0 '''' = u2
   \<and> get_media_extension ''video'' u2 = ''.mp4''
   \<and> (find (\<lambda>m. md_media_key m = Some media_key) media_data = Some media_info
        \<and> md_type media_info = Some ''video''
        \<and> select_video_variant (get_or (md_variants media_info) []) 0 '''' = ''''
       \<longrightarrow> foldl (process_media_key dl media_data output_path) st (media_key # media_keys)
           = foldl (process_media_key dl media_data output_path)
               (st\<lparr>video_count := video_count st + 1\<rparr>) media_keys)"
proof (intro conjI impI)
  assume "i < length vs \<and> 0 < get_or (var_bit_rate (vs ! i)) 0
      \<and> (\<forall>j < length vs. get_or (var_bit_rate (vs ! j)) 0 \<le> get_or (var_bit_rate (vs ! i)) 0)
      \<and> (\<forall>j < i. get_or (var_bit_rate (vs ! j)) 0 < get_or (var_bit_rate (vs ! i)) 0)"
  then show "select_video_variant vs 0 '''' = get_or (var_url (vs ! i)) ''''"
    using select_video_variant_max [of i vs 0 "''''"] by blast
next
  assume "\<forall>v \<in> set vs. get_or (var_bit_rate v) 0 \<le> 0"
  then show "select_video_variant vs 0 '''' = ''''" by (rule select_video_variant_below)
next
  assume "\<forall>v \<in> set vs. get_or (var_url v) '''' = ''''"
  then show "select_video_variant vs 0 '''' = ''''" by (rule select_video_variant_no_url)
next
  show "select_video_variant
         [\<lparr>var_bit_rate = Some 500, var_url = Some u1\<rparr>,
          \<lparr>var_bit_rate = Some 2000, var_url = Some u2\<rparr>,
          \<lparr>var_bit_rate = Some 1200, var_url = Some u3\<rparr>] 0 '''' = u2"
    by (simp add: get_or_def)
next
  show "get_media_extension ''video'' u2 = ''.mp4''" by (simp add: get_media_extension_def)
next
  assume h: "find (\<lambda>m. md_media_key m = Some media_key) media_data = Some media_info
        \<and> md_type media_info = Some ''video''
        \<and> select_video_variant (get_or (md_variants media_info) []) 0 '''' = ''''"
  have "process_media_key dl media_data output_path st media_key
          = st\<lparr>video_count := video_count st + 1\<rparr>"
    using h by (simp add: process_media_key_def download_step_def Let_def get_or_def)
  then show "foldl (process_media_key dl media_data output_path) st (media_key # media_keys)
           = foldl (process_media_key dl media_data output_path)
               (st\<lparr>video_count := video_count st + 1\<rparr>) media_keys"
    by simp
qed

theorem select_video_variant_highest_witness:
  "(1::nat) < length [\<lparr>var_bit_rate = Some 500, var_url = Some ''https://video.twimg.com/v/lo.mp4''\<rparr>,
                     \<lparr>var_bit_rate = Some 2000, var_url = Some ''https://video.twimg.com/v/hi.mp4''\<rparr>,
                     \<lparr>var_bit_rate = Some 1200, var_url = Some ''https://video.twimg.com/v/mid.mp4''\<rparr>]
   \<and> select_video_variant
         [\<lparr>var_bit_rate = Some 500, var_url = Some ''https://video.twimg.com/v/lo.mp4''\<rparr>,
          \<lparr>var_bit_rate = Some 2000, var_url = Some ''https://video.twimg.com/v/hi.mp4''\<rparr>,
          \<lparr>var_bit_rate = Some 1200, var_url = Some ''https://video.twimg.com/v/mid.mp4''\<rparr>] 0 ''''
       = ''https://video.twimg.com/v/hi.mp4''
   \<and> select_video_variant [\<lparr>var_bit_rate = None, var_url = None\<rparr>] 0 '''' = ''''
   \<and> foldl (process_media_key (\<lambda>u p. True)
               [\<lparr>md_media_key = Some ''7_1'', md_type = Some ''video'', md_url = None,
                 md_variants = Some [\<lparr>var_bit_rate = None, var_url = None\<rparr>]\<rparr>]
               ''data/individual_tweets/42'')
         \<lparr>photo_count = 0, video_count = 0, gif_count = 0, media_count = 0, effects = []\<rparr>
         [''7_1'', ''7_1'']
       = \<lparr>photo_count = 0, video_count = 2, gif_count = 0, media_count = 0, effects = []\<rparr>"
proof -
  let ?lo = "\<lparr>var_bit_rate = Some 500, var_url = Some ''https://video.twimg.com/v/lo.mp4''\<rparr>"
  let ?hi = "\<lparr>var_bit_rate = Some 2000, var_url = Some ''https://video.twimg.com/v/hi.mp4''\<rparr>"
  let ?mid = "\<lparr>var_bit_rate = Some 1200, var_url = Some ''https://video.twimg.com/v/mid.mp4''\<rparr>"
  let ?none = "\<lparr>var_bit_rate = None, var_url = None\<rparr>"
  let ?info = "\<lparr>md_media_key = Some ''7_1'', md_type = Some ''video'', md_url = None,
                 md_variants = Some [?none]\<rparr>"
  let ?st = "\<lparr>photo_count = 0, video_count = 0, gif_count = 0, media_count = 0, effects = []\<rparr>"
  let ?f = "process_media_key (\<lambda>u p. True) [?info] ''data/individual_tweets/42''"
  have all3: "(\<forall>j < length [?lo, ?hi, ?mid]. P j) \<longleftrightarrow> P 0 \<and> P 1 \<and> P 2" for P :: "nat \<Rightarrow> bool"
    by (auto simp: less_Suc_eq numeral_2_eq_2)
  have all1: "(\<forall>j < (1::nat). P j) \<longleftrightarrow> P 0" for P :: "nat \<Rightarrow> bool"
    by simp
  have h1: "1 < length [?lo, ?hi, ?mid] \<and> 0 < get_or (var_bit_rate ([?lo, ?hi, ?mid] ! 1)) 0
      \<and> (\<forall>j < length [?lo, ?hi, ?mid]. get_or (var_bit_rate ([?lo, ?hi, ?mid] ! j)) 0
             \<le> get_or (var_bit_rate ([?lo, ?hi, ?mid] ! 1)) 0)
      \<and> (\<forall>j < 1. get_or (var_bit_rate ([?lo, ?hi, ?mid] ! j)) 0
             < get_or (var_bit_rate ([?lo, ?hi, ?mid] ! 1)) 0)"
    unfolding all3 all1 by (simp add: get_or_def)
  have h2: "\<forall>v \<in> set [?none]. get_or (var_bit_rate v) 0 \<le> 0" by (simp add: get_or_def)
  have h3: "\<forall>v \<in> set [?none]. get_or (var_url v) '''' = ''''" by (simp add: get_or_def)
  have c1: "select_video_variant [?lo, ?hi, ?mid] 0 '''' = ''https://video.twimg.com/v/hi.mp4''"
    using select_video_variant_highest [where i = 1 and vs = "[?lo, ?hi, ?mid]"] h1 by (simp add: get_or_def)
  have c2: "select_video_variant [?none] 0 '''' = ''''"
    using select_video_variant_highest [where vs = "[?none]"] h2 by blast
  have h6: "find (\<lambda>m. md_media_key m = Some ''7_1'') [?info] = Some ?info
        \<and> md_type ?info = Some ''video''
        \<and> select_video_variant (get_or (md_variants ?info) []) 0 '''' = ''''"
    using c2 by (simp add: get_or_def)
  have step: "foldl ?f st (''7_1'' # ks) = foldl ?f (st\<lparr>video_count := video_count st + 1\<rparr>) ks"
    for st ks
    using select_video_variant_highest
      [where media_key = "''7_1''" and media_data = "[?info]" and media_info = ?info
         and dl = "\<lambda>u p. True" and output_path = "''data/individual_tweets/42''"
         and st = st and media_keys = ks] h6
    by blast
  have s3: "foldl ?f ?st [''7_1'', ''7_1'']
      = \<lparr>photo_count = 0, video_count = 2, gif_count = 0, media_count = 0, effects = []\<rparr>"
    unfolding step by simp
  show ?thesis using c1 c2 s3 by simp
qed

section \<open>Properties of the per-item persistence\<close>

text \<open>
  Claim C10.  For every item whose \<open>id\<close> key is missing or holds the empty string,
  \<open>save_individual_tweet\<close> returns the media count 0 and has no effect at all: no
  directory is created, no item document is written and no download is attempted,
  whatever the attachments and the side-table hold.
\<close>

theorem save_individual_tweet_without_id:
  "tw_id tweet_data = None \<or> tw_id tweet_data = Some ''''
   \<Longrightarrow> save_individual_tweet dl tweet_data includes_data output_dir = (0, [])"
  by (auto simp: save_individual_tweet_def)

theorem save_individual_tweet_without_id_witness:
  "tw_id \<lparr>tw_id = Some '''', tw_text = Some ''hello'', tw_created_at = None,
          tw_attachments = Some (Some [''3_1''])\<rparr> = Some ''''
   \<and> save_individual_tweet (\<lambda>u p. True)
         \<lparr>tw_id = Some '''', tw_text = Some ''hello'', tw_created_at = None,
          tw_attachments = Some (Some [''3_1''])\<rparr>
         \<lparr>inc_media = Some [\<lparr>md_media_key = Some ''3_1'', md_type = Some ''photo'',
                              md_url = Some ''https://pbs.twimg.com/media/a.jpg'',
                              md_variants = None\<rparr>]\<rparr>
         ''data'' = (0, [])"
  using save_individual_tweet_without_id
    [of "\<lparr>tw_id = Some '''', tw_text = Some ''hello'', tw_created_at = None,
          tw_attachments = Some (Some [''3_1''])\<rparr>"
        "\<lambda>u p. True"
        "\<lparr>inc_media = Some [\<lparr>md_media_key = Some ''3_1'', md_type = Some ''photo'',
                              md_url = Some ''https://pbs.twimg.com/media/a.jpg'',
                              md_variants = None\<rparr>]\<rparr>"
        "''data''"]
  by simp

section \<open>Properties of the Batch Fetcher\<close>

lemma fetch_batch_results:
  "all_tweets_data (fetch_batch net tok free n st ic)
     = all_tweets_data st @ (case batch_result net tok ic of None \<Rightarrow> [] | Some r \<Rightarrow> [r])"
  by (cases "net (fst ic) (snd ic) tok")
     (auto simp: fetch_batch_def get_posts_from_x_api_def batch_result_def Let_def py_truthy_def
        empty_response_def)

lemma fetch_batch_failed:
  "failed_chunks (fetch_batch net tok free n st ic)
     = failed_chunks st @ (if batch_result net tok ic = None then [ic] else [])"
  by (cases "net (fst ic) (snd ic) tok")
     (auto simp: fetch_batch_def get_posts_from_x_api_def batch_result_def Let_def py_truthy_def
        empty_response_def)

lemma fetch_batch_events:
  "events (fetch_batch net tok free n st ic)
     = events st @ Api_call (fst ic) (snd ic)
         # (case get_posts_from_x_api (net (fst ic)) (snd ic) tok of
              Inl e \<Rightarrow> [] | Inr r \<Rightarrow> pause_after free n (fst ic))"
  by (cases "get_posts_from_x_api (net (fst ic)) (snd ic) tok")
     (auto simp: fetch_batch_def Let_def pause_after_def)

lemma foldl_fetch_results:
  "all_tweets_data (foldl (fetch_batch net tok free n) st ics)
     = all_tweets_data st @ List.map_filter (batch_result net tok) ics"
proof (induction ics arbitrary: st)
  case Nil
  show ?case by (simp add: map_filter_simps)
next
  case (Cons ic ics)
  show ?case
    by (cases "batch_result net tok ic") (simp_all add: Cons.IH fetch_batch_results map_filter_simps)
qed

lemma foldl_fetch_failed:
  "failed_chunks (foldl (fetch_batch net tok free n) st ics)
     = failed_chunks st @ filter (\<lambda>ic. batch_result net tok ic = None) ics"
proof (induction ics arbitrary: st)
  case Nil
  show ?case by simp
next
  case (Cons ic ics)
  show ?case by (simp add: Cons.IH fetch_batch_failed)
qed

lemma foldl_fetch_events:
  "events (foldl (fetch_batch net tok free n) st ics)
     = events st @ concat (map (\<lambda>ic. Api_call (fst ic) (snd ic)
         # (case get_posts_from_x_api (net (fst ic)) (snd ic) tok of
              Inl e \<Rightarrow> [] | Inr r \<Rightarrow> pause_after free n (fst ic))) ics)"
proof (induction ics arbitrary: st)
  case Nil
  show ?case by simp
next
  case (Cons ic ics)
  show ?case by (simp add: Cons.IH fetch_batch_events)
qed

lemma filter_calls_pause: "filter is_api_call (pause_after free n i) = []"
  by (simp add: pause_after_def)

lemma foldl_fetch_calls:
  "filter is_api_call (events (foldl (fetch_batch net tok free n) st ics))
     = filter is_api_call (events st) @ map (\<lambda>ic. Api_call (fst ic) (snd ic)) ics"
proof (induction ics arbitrary: st)
  case Nil
  show ?case by simp
next
  case (Cons ic ics)
  show ?case
    by (cases "get_posts_from_x_api (net (fst ic)) (snd ic) tok")
       (simp_all add: Cons.IH fetch_batch_events filter_calls_pause)
qed

lemma map_filter_member:
  "x \<in> set xs \<Longrightarrow> f x = Some y \<Longrightarrow> y \<in> set (List.map_filter f xs)"
  by (induction xs) (auto simp: map_filter_simps split: option.splits)

lemma enumerate1_three: "enumerate1 [ca, cb, cc] = [(1, ca), (2, cb), (3, cc)]"
proof -
  have "[1..<Suc (length [ca, cb, cc])] = [1, 2, 3]" by (simp add: upt_rec)
  then show ?thesis by (simp add: enumerate1_def)
qed



text \<open>
  Claim C2 as stated fails for an empty item list: the loop tests that the \<open>data\<close> key
  is present, not that its list has items.  A response \<open>{"data": []}\<close> is appended to
  the results and its batch is not recorded as failed.
\<close>

theorem empty_data_list_counterexample:
  "fetch_loop (\<lambda>i ids tok. Returns \<lparr>rs_data = Some [], rs_includes = None, rs_other_keys = []\<rparr>)
     ''token'' True [ [''101''] ]
   = \<lparr>all_tweets_data = [\<lparr>rs_data = Some [], rs_includes = None, rs_other_keys = []\<rparr>],
      failed_chunks = [],
      events = [Api_call 1 [''101''] ]\<rparr>"
  by (simp add: fetch_loop_def enumerate1_def fetch_batch_def get_posts_from_x_api_def
        py_truthy_def Let_def)

text \<open>
  Claim C2, amended.  For every batch whose API call succeeds but whose response has
  no top-level \<open>data\<close> key (the empty object included), the loop records the batch in
  the failure list, appends no result for it, and continues with the remaining batches:
  the results are exactly the responses that have the \<open>data\<close> key, in batch order, the
  failure list is exactly the other batches, and every batch is called.  A response
  whose \<open>data\<close> key holds an empty list is a result, not a failure.
\<close>

theorem fetch_loop_soft_failure:
  "all_tweets_data (fetch_loop net tok free chunks)
     = List.map_filter (batch_result net tok) (enumerate1 chunks)
   \<and> failed_chunks (fetch_loop net tok free chunks)
     = filter (\<lambda>ic. batch_result net tok ic = None) (enumerate1 chunks)
   \<and> (ic \<in> set (enumerate1 chunks) \<and> net (fst ic) (snd ic) tok = Returns r \<and> rs_data r = None
       \<longrightarrow> batch_result net tok ic = None
           \<and> ic \<in> set (failed_chunks (fetch_loop net tok free chunks)))
   \<and> (ic \<in> set (enumerate1 chunks) \<and> net (fst ic) (snd ic) tok = Returns r \<and> rs_data r = Some []
       \<longrightarrow> batch_result net tok ic = Some r
           \<and> ic \<notin> set (failed_chunks (fetch_loop net tok free chunks))
           \<and> r \<in> set (all_tweets_data (fetch_loop net tok free chunks)))
   \<and> filter is_api_call (events (fetch_loop net tok free chunks))
       = map (\<lambda>ic. Api_call (fst ic) (snd ic)) (enumerate1 chunks)"
proof (intro conjI impI)
  show res: "all_tweets_data (fetch_loop net tok free chunks)
     = List.map_filter (batch_result net tok) (enumerate1 chunks)"
    by (simp add: fetch_loop_def foldl_fetch_results)
  show fl: "failed_chunks (fetch_loop net tok free chunks)
     = filter (\<lambda>ic. batch_result net tok ic = None) (enumerate1 chunks)"
    by (simp add: fetch_loop_def foldl_fetch_failed)
  show "filter is_api_call (events (fetch_loop net tok free chunks))
       = map (\<lambda>ic. Api_call (fst ic) (snd ic)) (enumerate1 chunks)"
    by (simp add: fetch_loop_def foldl_fetch_calls)
  {
    assume h: "ic \<in> set (enumerate1 chunks) \<and> net (fst ic) (snd ic) tok = Returns r
                \<and> rs_data r = None"
    then show n: "batch_result net tok ic = None" by (simp add: batch_result_def)
    from h n show "ic \<in> set (failed_chunks (fetch_loop net tok free chunks))"
      unfolding fl by simp
  }
  {
    assume h: "ic \<in> set (enumerate1 chunks) \<and> net (fst ic) (snd ic) tok = Returns r
                \<and> rs_data r = Some []"
    then show s: "batch_result net tok ic = Some r" by (simp add: batch_result_def)
    from s show "ic \<notin> set (failed_chunks (fetch_loop net tok free chunks))"
      unfolding fl by simp
    from h s show "r \<in> set (all_tweets_data (fetch_loop net tok free chunks))"
      unfolding res by (blast intro: map_filter_member)
  }
qed

lemma enumerate1_two: "enumerate1 [ca, cb] = [(1, ca), (2, cb)]"
proof -
  have "[1..<Suc (length [ca, cb])] = [1, 2]" by (simp add: upt_rec)
  then show ?thesis by (simp add: enumerate1_def)
qed

theorem fetch_loop_soft_failure_witness:
  "(1, [''101'']) \<in> set (failed_chunks
     (fetch_loop (\<lambda>i ids tok. if i = 1
                    then Returns \<lparr>rs_data = None, rs_includes = None, rs_other_keys = [''errors'']\<rparr>
                    else Returns \<lparr>rs_data = Some [], rs_includes = None, rs_other_keys = []\<rparr>)
        ''token'' False [ [''101''], [''102''] ]))
   \<and> (2, [''102'']) \<notin> set (failed_chunks
     (fetch_loop (\<lambda>i ids tok. if i = 1
                    then Returns \<lparr>rs_data = None, rs_includes = None, rs_other_keys = [''errors'']\<rparr>
                    else Returns \<lparr>rs_data = Some [], rs_includes = None, rs_other_keys = []\<rparr>)
        ''token'' False [ [''101''], [''102''] ]))
   \<and> \<lparr>rs_data = Some [], rs_includes = None, rs_other_keys = []\<rparr> \<in> set (all_tweets_data
     (fetch_loop (\<lambda>i ids tok. if i = 1
                    then Returns \<lparr>rs_data = None, rs_includes = None, rs_other_keys = [''errors'']\<rparr>
                    else Returns \<lparr>rs_data = Some [], rs_includes = None, rs_other_keys = []\<rparr>)
        ''token'' False [ [''101''], [''102''] ]))"
proof -
  let ?ra = "\<lparr>rs_data = None, rs_includes = None, rs_other_keys = [''errors'']\<rparr>"
  let ?rb = "\<lparr>rs_data = Some ([]::tweet list), rs_includes = None, rs_other_keys = []\<rparr>"
  let ?net = "\<lambda>(i::nat) (ids::string list) (tok::string). if i = 1 then Returns ?ra else Returns ?rb"
  let ?chunks = "[ [''101''], [''102''] ]"
  have ha: "(1, [''101'']) \<in> set (enumerate1 ?chunks)
      \<and> ?net (fst (1::nat, [''101''])) (snd (1::nat, [''101''])) ''token'' = Returns ?ra
      \<and> rs_data ?ra = None"
    by (simp add: enumerate1_two)
  have hb: "(2, [''102'']) \<in> set (enumerate1 ?chunks)
      \<and> ?net (fst (2::nat, [''102''])) (snd (2::nat, [''102''])) ''token'' = Returns ?rb
      \<and> rs_data ?rb = Some []"
    by (simp add: enumerate1_two)
  note ia = fetch_loop_soft_failure
    [where net = ?net and tok = "''token''" and free = False and chunks = ?chunks
       and ic = "(1, [''101''])" and r = ?ra]
  note ib = fetch_loop_soft_failure
    [where net = ?net and tok = "''token''" and free = False and chunks = ?chunks
       and ic = "(2, [''102''])" and r = ?rb]
  from ia ha have a: "(1, [''101'']) \<in> set (failed_chunks (fetch_loop ?net ''token'' False ?chunks))"
    by blast
  from ib hb have b: "(2, [''102'']) \<notin> set (failed_chunks (fetch_loop ?net ''token'' False ?chunks))
      \<and> ?rb \<in> set (all_tweets_data (fetch_loop ?net ''token'' False ?chunks))"
    by blast
  from a b show ?thesis by blast
qed

text \<open>
  Claim C6 as stated fails on the position of the pause in free-plan mode: in a run of
  two batches nothing precedes the first call, and the pause of 900 stands before the
  last batch.  And where a call raises an exception other than the request error, the
  handler of the loop is entered before the pause is reached: a free-plan run of two
  such batches has no pause at all.
\<close>

theorem pause_before_last_counterexample:
  "events (fetch_loop (\<lambda>i ids tok. Returns \<lparr>rs_data = Some [], rs_includes = None, rs_other_keys = []\<rparr>)
     ''token'' True [ [''101''], [''102''] ])
   = [Api_call 1 [''101''], Sleep 900, Api_call 2 [''102''] ]
   \<and> events (fetch_loop (\<lambda>i ids tok. Raises ValueError) ''token'' True [ [''101''], [''102''] ])
   = [Api_call 1 [''101''], Api_call 2 [''102''] ]"
  by (simp add: fetch_loop_def enumerate1_two fetch_batch_def get_posts_from_x_api_def
        py_truthy_def Let_def)

text \<open>
  Claim C6, amended.  For every run of the batch loop in which no call raises anything
  but the request error, the events are, batch after batch in order, the call of the
  batch followed by its pause: in free-plan mode a pause of 900 after every batch except
  the last; in paid mode a pause of 60 after every batch except the last only when there
  are more than 15 batches, and no pause otherwise.  No batch is skipped or reordered:
  the calls are those of all batches, in order.
\<close>

theorem fetch_loop_pauses:
  assumes "\<forall>ic \<in> set (enumerate1 chunks). \<forall>e. net (fst ic) (snd ic) tok = Raises e \<longrightarrow> e = RequestException"
  shows "events (fetch_loop net tok free chunks)
           = concat (map (\<lambda>ic. Api_call (fst ic) (snd ic) # pause_after free (length chunks) (fst ic))
                      (enumerate1 chunks))
         \<and> pause_after True (length chunks) i = (if i < length chunks then [Sleep 900] else [])
         \<and> pause_after False (length chunks) i
             = (if i < length chunks \<and> 15 < length chunks then [Sleep 60] else [])
         \<and> filter is_api_call (events (fetch_loop net tok free chunks))
             = map (\<lambda>ic. Api_call (fst ic) (snd ic)) (enumerate1 chunks)"
proof (intro conjI)
  have "(case get_posts_from_x_api (net (fst ic)) (snd ic) tok of
           Inl e \<Rightarrow> [] | Inr r \<Rightarrow> pause_after free (length chunks) (fst ic))
        = pause_after free (length chunks) (fst ic)"
    if "ic \<in> set (enumerate1 chunks)" for ic
  proof (cases "net (fst ic) (snd ic) tok")
    case (Raises e)
    with assms that have "e = RequestException" by blast
    with Raises show ?thesis by (simp add: get_posts_from_x_api_def)
  next
    case (Returns r)
    then show ?thesis by (simp add: get_posts_from_x_api_def)
  qed
  then have "map (\<lambda>ic. Api_call (fst ic) (snd ic)
         # (case get_posts_from_x_api (net (fst ic)) (snd ic) tok of
              Inl e \<Rightarrow> [] | Inr r \<Rightarrow> pause_after free (length chunks) (fst ic))) (enumerate1 chunks)
     = map (\<lambda>ic. Api_call (fst ic) (snd ic) # pause_after free (length chunks) (fst ic))
         (enumerate1 chunks)"
    by (intro map_cong) simp_all
  then show "events (fetch_loop net tok free chunks)
           = concat (map (\<lambda>ic. Api_call (fst ic) (snd ic) # pause_after free (length chunks) (fst ic))
                      (enumerate1 chunks))"
    unfolding fetch_loop_def foldl_fetch_events by (simp only: fetch_state.simps append_Nil)
  show "pause_after True (length chunks) i = (if i < length chunks then [Sleep 900] else [])"
    by (simp add: pause_after_def)
  show "pause_after False (length chunks) i
             = (if i < length chunks \<and> 15 < length chunks then [Sleep 60] else [])"
    by (simp add: pause_after_def)
  show "filter is_api_call (events (fetch_loop net tok free chunks))
             = map (\<lambda>ic. Api_call (fst ic) (snd ic)) (enumerate1 chunks)"
    by (simp add: fetch_loop_def foldl_fetch_calls)
qed

theorem fetch_loop_pauses_witness:
  "events (fetch_loop (\<lambda>i ids tok. if i = 2 then Raises RequestException
                    else Returns \<lparr>rs_data = Some [], rs_includes = None, rs_other_keys = []\<rparr>)
     ''token'' True [ [''101''], [''102''], [''103''] ])
   = [Api_call 1 [''101''], Sleep 900, Api_call 2 [''102''], Sleep 900, Api_call 3 [''103''] ]"
proof -
  let ?r = "\<lparr>rs_data = Some ([]::tweet list), rs_includes = None, rs_other_keys = []\<rparr>"
  let ?net = "\<lambda>(i::nat) (ids::string list) (tok::string).
                if i = 2 then Raises RequestException else Returns ?r"
  let ?chunks = "[ [''101''], [''102''], [''103''] ]"
  have h: "\<forall>ic \<in> set (enumerate1 ?chunks). \<forall>e. ?net (fst ic) (snd ic) ''token'' = Raises e
             \<longrightarrow> e = RequestException"
    by (simp add: enumerate1_three)
  from fetch_loop_pauses [OF h, where free = True]
  have "events (fetch_loop ?net ''token'' True ?chunks)
          = concat (map (\<lambda>ic. Api_call (fst ic) (snd ic) # pause_after True (length ?chunks) (fst ic))
                      (enumerate1 ?chunks))"
    by blast
  then show ?thesis by (simp add: enumerate1_three pause_after_def)
qed

section \<open>Properties of the Collector\<close>

lemma foldl_collect:
  "foldl (\<lambda>ids row. case f row of None \<Rightarrow> ids | Some t \<Rightarrow> insert t ids) acc rows
     = acc \<union> {t. \<exists>row \<in> set rows. f row = Some t}"
proof (induction rows arbitrary: acc)
  case Nil
  show ?case by simp
next
  case (Cons row rows)
  show ?case by (cases "f row") (auto simp: Cons.IH)
qed

lemma dict_reader_row_absent:
  assumes "col \<notin> set fieldnames"
  shows "dict_reader_row fieldnames row col = None"
proof -
  have "col \<notin> fst ` set (zip fieldnames (map Some row))"
    using assms by (auto dest: set_zip_leftD)
  moreover have "col \<notin> fst ` set (map (\<lambda>key. (key, None :: string option)) (drop (length row) fieldnames))"
    using assms by (auto dest: in_set_dropD)
  ultimately show ?thesis
    by (simp add: dict_reader_row_def map_of_eq_None_iff image_Un)
qed

lemma row_tweet_id_absent: "row col = None \<Longrightarrow> row_tweet_id col row = None"
  by (simp add: row_tweet_id_def get_or_def)

lemma dict_reader_absent:
  assumes "case rows of [] \<Rightarrow> True | header # body \<Rightarrow> col \<notin> set header"
    and "row \<in> set (dict_reader rows)"
  shows "row col = None"
proof (cases rows)
  case Nil
  with assms(2) show ?thesis by (simp add: dict_reader_def)
next
  case (Cons header body)
  with assms(1) have "col \<notin> set header" by simp
  with assms(2) Cons show ?thesis by (auto simp: dict_reader_def dict_reader_row_absent)
qed

text \<open>
  Claim C3 as stated fails on the header: the Collector has no schema check.  With a
  header that does not hold the named column, \<open>row.get\<close> gives the default for every
  row, every row is skipped, and the result is the empty set, not an error.
\<close>

theorem absent_column_counterexample:
  "''url'' \<notin> set [''id'', ''link'']
   \<and> extract_tweet_ids_from_csv
        (\<lambda>p. Inr [ [''id'', ''link''], [''1'', ''https://x.com/a/status/5''] ]) ''in.csv'' ''url''
      = Inr {}"
  by (simp add: extract_tweet_ids_from_csv_def dict_reader_def dict_reader_row_def
        row_tweet_id_def get_or_def)

text \<open>
  Claim C3, amended.  For every input table that can be read and every column name,
  the Collector returns (it raises nothing) the set of the identifiers contributed by
  the rows; a row whose designated cell is missing (absent key, or a row too short),
  empty, or holds a URL that matches no pattern contributes nothing and is no error;
  and when the named column is entirely absent from the header row (or there is no
  header row) every row is skipped and the result is the empty set.
\<close>

theorem collector_skips_rows:
  "(read_csv csv_file = Inr rows \<longrightarrow>
      extract_tweet_ids_from_csv read_csv csv_file col
        = Inr {t. \<exists>row \<in> set (dict_reader rows). row_tweet_id col row = Some t}
      \<and> ((case rows of [] \<Rightarrow> True | header # body \<Rightarrow> col \<notin> set header)
           \<longrightarrow> extract_tweet_ids_from_csv read_csv csv_file col = Inr {}))
   \<and> (row col = None \<or> row col = Some None \<or> row col = Some (Some '''')
        \<or> (\<exists>url. row col = Some (Some url) \<and> extract_tweet_id_from_url url = None)
       \<longrightarrow> row_tweet_id col row = None)"
proof (intro conjI impI)
  assume r: "read_csv csv_file = Inr rows"
  then show eq: "extract_tweet_ids_from_csv read_csv csv_file col
        = Inr {t. \<exists>row \<in> set (dict_reader rows). row_tweet_id col row = Some t}"
    by (simp add: extract_tweet_ids_from_csv_def foldl_collect)
  assume "case rows of [] \<Rightarrow> True | header # body \<Rightarrow> col \<notin> set header"
  then have "\<forall>row \<in> set (dict_reader rows). row_tweet_id col row = None"
    by (blast intro: row_tweet_id_absent dict_reader_absent)
  then show "extract_tweet_ids_from_csv read_csv csv_file col = Inr {}"
    unfolding eq by simp
next
  assume "row col = None \<or> row col = Some None \<or> row col = Some (Some '''')
        \<or> (\<exists>url. row col = Some (Some url) \<and> extract_tweet_id_from_url url = None)"
  then show "row_tweet_id col row = None"
    by (auto simp: row_tweet_id_def get_or_def)
qed

theorem collector_skips_rows_witness:
  "extract_tweet_ids_from_csv
     (\<lambda>p. Inr [ [''id'', ''url''], [''1'', ''https://example.org/''], [''2''] ]) ''in.csv'' ''target''
     = Inr {}
   \<and> row_tweet_id ''url'' (dict_reader_row [''id'', ''url''] [''1'', '''']) = None"
proof -
  let ?rows = "[ [''id'', ''url''], [''1'', ''https://example.org/''], [''2''] ]"
  let ?read = "\<lambda>p::string. (Inr ?rows :: py_error + string list list)"
  let ?row = "dict_reader_row [''id'', ''url''] [''1'', '''']"
  have ha: "?read ''in.csv'' = Inr ?rows" by simp
  have hb: "case ?rows of [] \<Rightarrow> True | header # body \<Rightarrow> ''target'' \<notin> set header" by simp
  have hc: "?row ''url'' = None \<or> ?row ''url'' = Some None \<or> ?row ''url'' = Some (Some '''')
        \<or> (\<exists>url. ?row ''url'' = Some (Some url) \<and> extract_tweet_id_from_url url = None)"
    by (simp add: dict_reader_row_def)
  from collector_skips_rows [where read_csv = ?read and csv_file = "''in.csv''" and rows = ?rows
      and col = "''target''"] ha hb
  have a: "extract_tweet_ids_from_csv ?read ''in.csv'' ''target'' = Inr {}" by blast
  from collector_skips_rows [where row = ?row and col = "''url''"] hc
  have b: "row_tweet_id ''url'' ?row = None" by blast
  from a b show ?thesis by blast
qed

section \<open>Properties of the exit status\<close>





section \<open>Properties of the Identifier Extractor\<close>

lemma take_in_takeWhile:
  assumes "k \<le> length (takeWhile p s)"
  shows "\<forall>c \<in> set (take k s). p c"
proof -
  have "take k s = take k (takeWhile p s @ dropWhile p s)" by simp
  also have "\<dots> = take k (takeWhile p s)" using assms by (simp del: takeWhile_dropWhile_id)
  finally have "set (take k s) \<subseteq> set (takeWhile p s)" by (simp add: set_take_subset)
  then show ?thesis by (auto dest: set_takeWhileD)
qed

lemma rests_Plus_image:
  "set (rests (Plus p) s) = (\<lambda>k. drop k s) ` {1..length (takeWhile p s)}"
proof -
  have "set (rests (Plus p) s) = (\<lambda>k. drop k s) ` {1..<Suc (length (takeWhile p s))}"
    by (simp only: rests.simps set_map set_rev set_upt)
  then show ?thesis by (simp only: atLeastLessThanSuc_atLeastAtMost)
qed

lemma rests_Plus_set:
  "set (rests (Plus p) s) = {t. \<exists>m. m \<noteq> [] \<and> (\<forall>c \<in> set m. p c) \<and> s = m @ t}"
proof (intro set_eqI iffI)
  fix t assume "t \<in> set (rests (Plus p) s)"
  then obtain k where k: "1 \<le> k" "k \<le> length (takeWhile p s)" and t: "t = drop k s"
    unfolding rests_Plus_image by auto
  have le: "length (takeWhile p s) \<le> length s" by (rule length_takeWhile_le)
  have "take k s \<noteq> []" using k le by auto
  moreover have "\<forall>c \<in> set (take k s). p c" using k(2) by (rule take_in_takeWhile)
  moreover have "s = take k s @ t" by (simp add: t)
  ultimately show "t \<in> {t. \<exists>m. m \<noteq> [] \<and> (\<forall>c \<in> set m. p c) \<and> s = m @ t}" by blast
next
  fix t assume "t \<in> {t. \<exists>m. m \<noteq> [] \<and> (\<forall>c \<in> set m. p c) \<and> s = m @ t}"
  then obtain m where m: "m \<noteq> []" "\<forall>c \<in> set m. p c" "s = m @ t" by blast
  have "takeWhile p s = m @ takeWhile p t" using m(2,3) by (simp add: takeWhile_append2)
  then have "length m \<le> length (takeWhile p s)" by simp
  moreover have "1 \<le> length m" using m(1) by (cases m) simp_all
  moreover have "t = drop (length m) s" using m(3) by simp
  ultimately show "t \<in> set (rests (Plus p) s)" unfolding rests_Plus_image by auto
qed

lemma rests_lang: "set (rests r s) = {t. \<exists>m \<in> lang r. s = m @ t}"
proof (induction r arbitrary: s)
  case (Lit l)
  show ?case by (auto simp: prefix_def)
next
  case (Plus p)
  show ?case unfolding rests_Plus_set by auto
next
  case (Seq a b)
  show ?case by (auto simp: Seq.IH) (metis append.assoc)+
next
  case (Alt a b)
  show ?case by (auto simp: Alt.IH)
next
  case (Opt a)
  show ?case by (auto simp: Opt.IH)
qed































end
